theory Spec2Isabelle
  imports Main
begin

section \<open>Magic actions of the workflow library (package aw, magic.go)\<close>

text \<open>
  A shallow embedding of the magic-action registry and of the argument interceptor
  \<^verbatim>\<open>MagicActions.Args\<close>. Go strings are byte sequences, so a string is a
  \<^typ>\<open>char list\<close>. A Go \<^verbatim>\<open>error\<close> is its message; \<^verbatim>\<open>nil\<close> is \<^term>\<open>None\<close>.
\<close>

type_synonym error = string

subsection \<open>Icons (icons.go)\<close>

record Icon =
  Value :: string
  Type :: string

definition IconTypeImageFile :: string where
  "IconTypeImageFile = ''''"

definition systemIcon :: "string \<Rightarrow> Icon" where
  "systemIcon filename =
     \<lparr>Value = ''/System/Library/CoreServices/CoreTypes.bundle/Contents/Resources/''
          @ filename @ ''.icns'',
      Type = IconTypeImageFile\<rparr>"

definition IconInfo :: Icon where
  "IconInfo = systemIcon ''ToolbarInfo''"

definition IconWarning :: Icon where
  "IconWarning = systemIcon ''AlertCautionIcon''"

subsection \<open>The MagicAction interface and the registry\<close>

text \<open>
  The interface has three string-valued methods and \<^verbatim>\<open>Run\<close>, which acts on the
  world outside the dispatcher (type \<open>'x\<close>: files, the network, the updater) and
  returns an error or \<^verbatim>\<open>nil\<close>. A registry entry is always an action: \<^verbatim>\<open>Register\<close>
  calls \<^verbatim>\<open>Keyword()\<close> on each argument, so a nil interface value never gets in, and
  a lookup that yields Go's zero value \<^verbatim>\<open>nil\<close> is a missing key.
\<close>

record 'x MagicAction =
  Keyword :: string
  Description :: string
  RunText :: string
  Run :: "'x \<Rightarrow> error option \<times> 'x"

type_synonym 'x MagicActions = "string \<rightharpoonup> 'x MagicAction"

text \<open>\<^verbatim>\<open>Register\<close> and \<^verbatim>\<open>Unregister\<close> are variadic and mutate the map in place; the
  model returns the updated map.\<close>

fun Register :: "'x MagicActions \<Rightarrow> 'x MagicAction list \<Rightarrow> 'x MagicActions" where
  "Register ma [] = ma"
| "Register ma (action # actions) = Register (ma(Keyword action \<mapsto> action)) actions"

fun Unregister :: "'x MagicActions \<Rightarrow> 'x MagicAction list \<Rightarrow> 'x MagicActions" where
  "Unregister ma [] = ma"
| "Unregister ma (action # actions) = Unregister (ma(Keyword action := None)) actions"

text \<open>A history of registry operations, applied in order.\<close>

datatype 'x registry_op = RegisterOp "'x MagicAction list" | UnregisterOp "'x MagicAction list"

fun apply_op :: "'x MagicActions \<Rightarrow> 'x registry_op \<Rightarrow> 'x MagicActions" where
  "apply_op ma (RegisterOp actions) = Register ma actions"
| "apply_op ma (UnregisterOp actions) = Unregister ma actions"

fun apply_ops :: "'x MagicActions \<Rightarrow> 'x registry_op list \<Rightarrow> 'x MagicActions" where
  "apply_ops ma [] = ma"
| "apply_ops ma (op # ops) = apply_ops (apply_op ma op) ops"

text \<open>The registry invariant: every entry is stored under its own keyword, and no two
  entries hold actions with the same keyword.\<close>

definition registry_inv :: "'x MagicActions \<Rightarrow> bool" where
  "registry_inv ma \<longleftrightarrow>
     (\<forall>k a. ma k = Some a \<longrightarrow> Keyword a = k) \<and>
     (\<forall>k1 k2 a1 a2. ma k1 = Some a1 \<and> ma k2 = Some a2 \<and> Keyword a1 = Keyword a2
        \<longrightarrow> k1 = k2 \<and> a1 = a2)"

subsection \<open>The built-in actions\<close>

text \<open>The file operations \<^verbatim>\<open>OpenLog\<close>, \<^verbatim>\<open>OpenData\<close>, \<^verbatim>\<open>OpenCache\<close>, \<^verbatim>\<open>ClearCache\<close>,
  \<^verbatim>\<open>ClearData\<close> and \<^verbatim>\<open>Reset\<close> live elsewhere in the package; the built-in actions
  take them as a parameter.\<close>

record 'x FileOps =
  OpenLog :: "'x \<Rightarrow> error option \<times> 'x"
  OpenData :: "'x \<Rightarrow> error option \<times> 'x"
  OpenCache :: "'x \<Rightarrow> error option \<times> 'x"
  ClearCache :: "'x \<Rightarrow> error option \<times> 'x"
  ClearData :: "'x \<Rightarrow> error option \<times> 'x"
  Reset :: "'x \<Rightarrow> error option \<times> 'x"

text \<open>The horizontal ellipsis U+2026 that ends three of the run texts, in UTF-8.\<close>

definition ellipsis :: string where
  "ellipsis = [CHR 0xE2, CHR 0x80, CHR 0xA6]"

definition openLogMagic :: "'x FileOps \<Rightarrow> 'x MagicAction" where
  "openLogMagic ops =
     \<lparr>Keyword = ''log'',
      Description = ''Open workflow's log file'',
      RunText = ''Opening log file'' @ ellipsis,
      Run = OpenLog ops\<rparr>"

definition openDataMagic :: "'x FileOps \<Rightarrow> 'x MagicAction" where
  "openDataMagic ops =
     \<lparr>Keyword = ''data'',
      Description = ''Open workflow's data directory'',
      RunText = ''Opening data directory'' @ ellipsis,
      Run = OpenData ops\<rparr>"

definition openCacheMagic :: "'x FileOps \<Rightarrow> 'x MagicAction" where
  "openCacheMagic ops =
     \<lparr>Keyword = ''cache'',
      Description = ''Open workflow's cache directory'',
      RunText = ''Opening cache directory'' @ ellipsis,
      Run = OpenCache ops\<rparr>"

definition clearCacheMagic :: "'x FileOps \<Rightarrow> 'x MagicAction" where
  "clearCacheMagic ops =
     \<lparr>Keyword = ''delcache'',
      Description = ''Delete workflow's cached data'',
      RunText = ''Deleted workflow's cached data'',
      Run = ClearCache ops\<rparr>"

definition clearDataMagic :: "'x FileOps \<Rightarrow> 'x MagicAction" where
  "clearDataMagic ops =
     \<lparr>Keyword = ''deldata'',
      Description = ''Delete workflow's saved data'',
      RunText = ''Deleted workflow's saved data'',
      Run = ClearData ops\<rparr>"

definition resetMagic :: "'x FileOps \<Rightarrow> 'x MagicAction" where
  "resetMagic ops =
     \<lparr>Keyword = ''reset'',
      Description = ''Delete all saved and cached workflow data'',
      RunText = ''Deleted workflow saved and cached data'',
      Run = Reset ops\<rparr>"

definition DefaultMagicActions :: "'x FileOps \<Rightarrow> 'x MagicAction list" where
  "DefaultMagicActions ops =
     [openLogMagic ops, openCacheMagic ops, clearCacheMagic ops,
      openDataMagic ops, clearDataMagic ops, resetMagic ops]"

text \<open>\<^verbatim>\<open>helpMagic\<close> runs the command \<^verbatim>\<open>open URL\<close>; the process runner is a
  parameter.\<close>

definition helpMagic :: "(string \<Rightarrow> string list \<Rightarrow> 'x \<Rightarrow> error option \<times> 'x) \<Rightarrow> string \<Rightarrow> 'x MagicAction" where
  "helpMagic exec_Command URL =
     \<lparr>Keyword = ''help'',
      Description = ''Open workflow help URL in default browser'',
      RunText = ''Opening help in your browser'' @ ellipsis,
      Run = exec_Command ''open'' [URL]\<rparr>"

subsection \<open>The update action\<close>

text \<open>The \<^verbatim>\<open>Updater\<close> interface is declared elsewhere in the package: its three
  methods are a parameter, acting on a state \<open>'u\<close> of their own. The world of
  \<^verbatim>\<open>updateMagic.Run\<close> is that state together with the log of the calls made, which
  the updater's methods cannot touch.\<close>

record 'u Updater =
  CheckForUpdate :: "'u \<Rightarrow> error option \<times> 'u"
  UpdateAvailable :: "'u \<Rightarrow> bool \<times> 'u"
  Install :: "'u \<Rightarrow> error option \<times> 'u"

datatype ucall = CheckForUpdateCall | UpdateAvailableCall | InstallCall | LogPrintln string

record 'u UpdWorld =
  ustate :: 'u
  calls :: "ucall list"

definition updateMagic_Run :: "'u Updater \<Rightarrow> 'u UpdWorld \<Rightarrow> error option \<times> 'u UpdWorld" where
  "updateMagic_Run updater w =
     (case CheckForUpdate updater (ustate w) of
        (Some err, u1) \<Rightarrow>
          (Some err, \<lparr>ustate = u1, calls = calls w @ [CheckForUpdateCall]\<rparr>)
      | (None, u1) \<Rightarrow>
          (case UpdateAvailable updater u1 of
             (True, u2) \<Rightarrow>
               (case Install updater u2 of
                  (r, u3) \<Rightarrow>
                    (r, \<lparr>ustate = u3,
                         calls = calls w @ [CheckForUpdateCall, UpdateAvailableCall, InstallCall]\<rparr>))
           | (False, u2) \<Rightarrow>
               (None, \<lparr>ustate = u2,
                       calls = calls w @ [CheckForUpdateCall, UpdateAvailableCall,
                                          LogPrintln ''No update available'']\<rparr>)))"

definition updateMagic :: "'u Updater \<Rightarrow> 'u UpdWorld MagicAction" where
  "updateMagic updater =
     \<lparr>Keyword = ''update'',
      Description = ''Check for updates, and install if one is available'',
      RunText = ''Fetching update'' @ ellipsis,
      Run = updateMagic_Run updater\<rparr>"

subsection \<open>strings.TrimSpace and strings.HasPrefix\<close>

text \<open>\<^verbatim>\<open>strings.TrimSpace\<close> removes leading and trailing white space as Unicode
  defines it (\<^verbatim>\<open>unicode.IsSpace\<close>): the six ASCII characters, U+0085, U+00A0, U+1680,
  U+2000 to U+200A, U+2028, U+2029, U+202F, U+205F and U+3000. On bytes, a rune at
  the start (or the end) of a string is white space exactly when the string starts
  (or ends) with the UTF-8 encoding of one of them.\<close>

definition space_runes :: "string list" where
  "space_runes =
     [[CHR 0x09], [CHR 0x0A], [CHR 0x0B], [CHR 0x0C], [CHR 0x0D], [CHR 0x20],
      [CHR 0xC2, CHR 0x85], [CHR 0xC2, CHR 0xA0],
      [CHR 0xE1, CHR 0x9A, CHR 0x80],
      [CHR 0xE2, CHR 0x80, CHR 0x80], [CHR 0xE2, CHR 0x80, CHR 0x81],
      [CHR 0xE2, CHR 0x80, CHR 0x82], [CHR 0xE2, CHR 0x80, CHR 0x83],
      [CHR 0xE2, CHR 0x80, CHR 0x84], [CHR 0xE2, CHR 0x80, CHR 0x85],
      [CHR 0xE2, CHR 0x80, CHR 0x86], [CHR 0xE2, CHR 0x80, CHR 0x87],
      [CHR 0xE2, CHR 0x80, CHR 0x88], [CHR 0xE2, CHR 0x80, CHR 0x89],
      [CHR 0xE2, CHR 0x80, CHR 0x8A],
      [CHR 0xE2, CHR 0x80, CHR 0xA8], [CHR 0xE2, CHR 0x80, CHR 0xA9],
      [CHR 0xE2, CHR 0x80, CHR 0xAF], [CHR 0xE2, CHR 0x81, CHR 0x9F],
      [CHR 0xE3, CHR 0x80, CHR 0x80]]"

definition HasPrefix :: "string \<Rightarrow> string \<Rightarrow> bool" where
  "HasPrefix s prefix \<longleftrightarrow> length prefix \<le> length s \<and> take (length prefix) s = prefix"

definition HasSuffix :: "string \<Rightarrow> string \<Rightarrow> bool" where
  "HasSuffix s suffix \<longleftrightarrow>
     length suffix \<le> length s \<and> drop (length s - length suffix) s = suffix"

text \<open>The width in bytes of the white-space rune a string starts (ends) with, 0 when
  it starts (ends) with none.\<close>

definition leading_space :: "string \<Rightarrow> nat" where
  "leading_space s = (case List.find (HasPrefix s) space_runes of None \<Rightarrow> 0 | Some w \<Rightarrow> length w)"

definition trailing_space :: "string \<Rightarrow> nat" where
  "trailing_space s = (case List.find (HasSuffix s) space_runes of None \<Rightarrow> 0 | Some w \<Rightarrow> length w)"

function TrimLeft :: "string \<Rightarrow> string" where
  "TrimLeft s = (if leading_space s = 0 then s else TrimLeft (drop (leading_space s) s))"
  by pat_completeness auto
termination
proof (relation "measure length")
  show "wf (measure length)" by simp
next
  fix s :: string
  assume pos: "leading_space s \<noteq> 0"
  have "s \<noteq> []"
  proof
    assume "s = []"
    then have "leading_space s = 0"
      by (simp add: leading_space_def space_runes_def HasPrefix_def)
    with pos show False by simp
  qed
  with pos show "(drop (leading_space s) s, s) \<in> measure length" by simp
qed

function TrimRight :: "string \<Rightarrow> string" where
  "TrimRight s =
     (if trailing_space s = 0 then s else TrimRight (take (length s - trailing_space s) s))"
  by pat_completeness auto
termination
proof (relation "measure length")
  show "wf (measure length)" by simp
next
  fix s :: string
  assume pos: "trailing_space s \<noteq> 0"
  have "s \<noteq> []"
  proof
    assume "s = []"
    then have "trailing_space s = 0"
      by (simp add: trailing_space_def space_runes_def HasSuffix_def)
    with pos show False by simp
  qed
  with pos show "(take (length s - trailing_space s) s, s) \<in> measure length" by simp
qed

declare TrimLeft.simps [simp del] TrimRight.simps [simp del]

definition TrimSpace :: "string \<Rightarrow> string" where
  "TrimSpace s = TrimRight (TrimLeft s)"

subsection \<open>Feedback items and the calls \<^verbatim>\<open>Args\<close> makes\<close>

text \<open>Modelled from the spec: the feedback item and its chainable setters (\<^verbatim>\<open>NewItem\<close>,
  \<^verbatim>\<open>Icon\<close>, \<^verbatim>\<open>Subtitle\<close>, \<^verbatim>\<open>Valid\<close>, \<^verbatim>\<open>UID\<close>, \<^verbatim>\<open>Autocomplete\<close>, \<^verbatim>\<open>Match\<close>) are declared
  elsewhere in the package. An item is its title and the attributes the chain has set;
  \<^term>\<open>None\<close> is an attribute no setter was called for.\<close>

record Item =
  Title :: string
  Subtitle :: "string option"
  Valid :: "bool option"
  ItemIcon :: "Icon option"
  UID :: "string option"
  Autocomplete :: "string option"
  Match :: "string option"

text \<open>\<^verbatim>\<open>NewItem(action.RunText()).Icon(IconInfo).Valid(false)\<close>\<close>

definition runItem :: "'x MagicAction \<Rightarrow> Item" where
  "runItem action =
     \<lparr>Title = RunText action, Subtitle = None, Valid = Some False,
      ItemIcon = Some IconInfo, UID = None, Autocomplete = None, Match = None\<rparr>"

text \<open>\<^verbatim>\<open>NewItem(action.Keyword()).Subtitle(action.Description()).Valid(false).Icon(IconInfo).
  UID(action.Description()).Autocomplete(prefix + kw).
  Match(fmt.Sprintf("%s %s", action.Keyword(), action.Description()))\<close>,
  where \<^verbatim>\<open>kw\<close> is the key the action is stored under.\<close>

definition listItem :: "string \<Rightarrow> string \<Rightarrow> 'x MagicAction \<Rightarrow> Item" where
  "listItem prefix kw action =
     \<lparr>Title = Keyword action, Subtitle = Some (Description action), Valid = Some False,
      ItemIcon = Some IconInfo, UID = Some (Description action),
      Autocomplete = Some (prefix @ kw),
      Match = Some (Keyword action @ '' '' @ Description action)\<rparr>"

text \<open>Modelled from the spec: the logger (\<^verbatim>\<open>log.Printf\<close>), the feedback channel
  (\<^verbatim>\<open>NewItem\<close>, \<^verbatim>\<open>Filter\<close>, \<^verbatim>\<open>WarnEmpty\<close>, \<^verbatim>\<open>SendFeedback\<close>) and the log flush
  (\<^verbatim>\<open>finishLog\<close>) are collaborators whose code is not part of these sources. As the
  spec's table of collaborator contracts has them, each is a call that does its work
  and returns to \<^verbatim>\<open>Args\<close>; the model records the calls, in order, with their
  arguments. \<^verbatim>\<open>LogPrintf\<close> holds the format string and its operands. \<^verbatim>\<open>RunCall\<close>
  records that the \<^verbatim>\<open>Run\<close> method of an action was invoked.\<close>

datatype 'x event =
    LogPrintf string "string list"
  | NewItem Item
  | SendFeedback
  | RunCall "'x MagicAction"
  | FinishLog bool
  | Filter string
  | WarnEmpty string string

text \<open>\<^verbatim>\<open>Args\<close> either returns a slice to its caller or ends the process with
  \<^verbatim>\<open>os.Exit\<close>.\<close>

datatype outcome = Return "string list" | Exit int

record 'x result =
  outcome :: outcome
  trace :: "'x event list"
  world :: 'x

subsection \<open>MagicActions.Args\<close>

text \<open>Go iterates over a map in an order the language leaves open. The model takes
  the order as an argument: \<open>keys\<close> lists the keys of the registry in the order
  \<^verbatim>\<open>range ma\<close> yields them.\<close>

definition range_order :: "'x MagicActions \<Rightarrow> string list \<Rightarrow> bool" where
  "range_order ma keys \<longleftrightarrow> distinct keys \<and> set keys = dom ma"

text \<open>The loop \<^verbatim>\<open>for kw, action := range ma\<close> of the fallback branch.\<close>

fun listing :: "'x MagicActions \<Rightarrow> string \<Rightarrow> string list \<Rightarrow> 'x event list" where
  "listing ma prefix [] = []"
| "listing ma prefix (kw # keys) =
     (case ma kw of
        None \<Rightarrow> listing ma prefix keys
      | Some action \<Rightarrow> NewItem (listItem prefix kw action) # listing ma prefix keys)"

text \<open>The loop over the arguments. \<^term>\<open>None\<close>: the loop ran to its end, and \<^verbatim>\<open>Args\<close>
  goes on to \<^verbatim>\<open>return args\<close>. Both branches under a prefixed argument end in
  \<^verbatim>\<open>os.Exit(0)\<close>, so the loop never sees the arguments after it.\<close>

fun Args_loop ::
  "'x MagicActions \<Rightarrow> string list \<Rightarrow> string \<Rightarrow> string list \<Rightarrow> 'x \<Rightarrow> 'x result option" where
  "Args_loop ma keys prefix [] x = None"
| "Args_loop ma keys prefix (arg0 # rest) x =
     (let arg = TrimSpace arg0 in
      if HasPrefix arg prefix then
        (let query = drop (length prefix) arg in
         case ma query of
           Some action \<Rightarrow>
             (case Run action x of
                (err, x') \<Rightarrow>
                  Some \<lparr>outcome = Exit 0,
                        trace =
                          [LogPrintf (RunText action) [],
                           NewItem (runItem action),
                           SendFeedback,
                           RunCall action]
                          @ (case err of
                               Some e \<Rightarrow>
                                 [LogPrintf ''Error running magic arg `%s`: %s''
                                    [Description action, e],
                                  FinishLog True]
                             | None \<Rightarrow> [])
                          @ [FinishLog False],
                        world = x'\<rparr>)
         | None \<Rightarrow>
             Some \<lparr>outcome = Exit 0,
                   trace =
                     listing ma prefix keys
                     @ [Filter query,
                        WarnEmpty ''No matching action'' ''Try another query?'',
                        SendFeedback],
                   world = x\<rparr>)
      else Args_loop ma keys prefix rest x)"

definition Args ::
  "'x MagicActions \<Rightarrow> string list \<Rightarrow> string list \<Rightarrow> string \<Rightarrow> 'x \<Rightarrow> 'x result" where
  "Args ma keys args prefix x =
     (case Args_loop ma keys prefix args x of
        Some r \<Rightarrow> r
      | None \<Rightarrow> \<lparr>outcome = Return args, trace = [], world = x\<rparr>)"

text \<open>What a trace holds: the actions whose \<^verbatim>\<open>Run\<close> was invoked, the calls that only
  the fallback listing makes, and the flags of the log flushes.\<close>

fun run_calls :: "'x event list \<Rightarrow> 'x MagicAction list" where
  "run_calls [] = []"
| "run_calls (RunCall a # es) = a # run_calls es"
| "run_calls (e # es) = run_calls es"

fun fallback_calls :: "'x event list \<Rightarrow> 'x event list" where
  "fallback_calls [] = []"
| "fallback_calls (Filter q # es) = Filter q # fallback_calls es"
| "fallback_calls (WarnEmpty t s # es) = WarnEmpty t s # fallback_calls es"
| "fallback_calls (e # es) = fallback_calls es"

fun finish_calls :: "'x event list \<Rightarrow> bool list" where
  "finish_calls [] = []"
| "finish_calls (FinishLog b # es) = b # finish_calls es"
| "finish_calls (e # es) = finish_calls es"

subsection \<open>The feedback channel\<close>

text \<open>Modelled from the spec: the feedback channel "buffers items, applies fuzzy filter,
  emits to stdout/host UI on Send", and \<^verbatim>\<open>WarnEmpty\<close> adds a warning placeholder when
  the buffer holds nothing. The fuzzy filter itself is a parameter. \<open>Items\<close> is the
  buffer, \<open>Sent\<close> the emissions so far.\<close>

record Feedback =
  Items :: "Item list"
  Sent :: "Item list list"

definition warnItem :: "string \<Rightarrow> string \<Rightarrow> Item" where
  "warnItem t s =
     \<lparr>Title = t, Subtitle = Some s, Valid = Some False,
      ItemIcon = Some IconWarning, UID = None, Autocomplete = None, Match = None\<rparr>"

fun feedback_step :: "(string \<Rightarrow> Item list \<Rightarrow> Item list) \<Rightarrow> Feedback \<Rightarrow> 'x event \<Rightarrow> Feedback" where
  "feedback_step fuzzy fb (NewItem it) = fb\<lparr>Items := Items fb @ [it]\<rparr>"
| "feedback_step fuzzy fb (Filter q) = fb\<lparr>Items := fuzzy q (Items fb)\<rparr>"
| "feedback_step fuzzy fb (WarnEmpty t s) =
     (if Items fb = [] then fb\<lparr>Items := [warnItem t s]\<rparr> else fb)"
| "feedback_step fuzzy fb SendFeedback = fb\<lparr>Sent := Sent fb @ [Items fb]\<rparr>"
| "feedback_step fuzzy fb e = fb"

definition feedback_run :: "(string \<Rightarrow> Item list \<Rightarrow> Item list) \<Rightarrow> Feedback \<Rightarrow> 'x event list \<Rightarrow> Feedback" where
  "feedback_run fuzzy fb es = foldl (feedback_step fuzzy) fb es"

subsection \<open>A small installation to run the definitions on\<close>

text \<open>The world is the list of file operations performed so far. Every operation
  succeeds except \<^verbatim>\<open>ClearCache\<close>, which reports an error.\<close>

definition demo_ops :: "string list FileOps" where
  "demo_ops =
     \<lparr>OpenLog = (\<lambda>x. (None, x @ [''OpenLog''])),
      OpenData = (\<lambda>x. (None, x @ [''OpenData''])),
      OpenCache = (\<lambda>x. (None, x @ [''OpenCache''])),
      ClearCache = (\<lambda>x. (Some ''permission denied'', x @ [''ClearCache''])),
      ClearData = (\<lambda>x. (None, x @ [''ClearData''])),
      Reset = (\<lambda>x. (None, x @ [''Reset'']))\<rparr>"

text \<open>The registry of the spec's scenarios: \<^verbatim>\<open>log\<close> and \<^verbatim>\<open>data\<close>.\<close>

definition demo_registry :: "string list MagicActions" where
  "demo_registry = Register Map.empty [openLogMagic demo_ops, openDataMagic demo_ops]"

text \<open>A substring filter standing in for the fuzzy one: an item stays when the query
  is empty or equals the item's title.\<close>

definition demo_filter :: "string \<Rightarrow> Item list \<Rightarrow> Item list" where
  "demo_filter q its = filter (\<lambda>it. q = [] \<or> Title it = q) its"

text \<open>Three updaters over a counter: one whose check fails, one with nothing to
  install, one that installs.\<close>

definition failing_updater :: "nat Updater" where
  "failing_updater =
     \<lparr>CheckForUpdate = (\<lambda>u. (Some ''network down'', u + 1)),
      UpdateAvailable = (\<lambda>u. (True, u + 10)),
      Install = (\<lambda>u. (None, u + 100))\<rparr>"

definition idle_updater :: "nat Updater" where
  "idle_updater =
     \<lparr>CheckForUpdate = (\<lambda>u. (None, u + 1)),
      UpdateAvailable = (\<lambda>u. (False, u + 10)),
      Install = (\<lambda>u. (None, u + 100))\<rparr>"

definition installing_updater :: "nat Updater" where
  "installing_updater =
     \<lparr>CheckForUpdate = (\<lambda>u. (None, u + 1)),
      UpdateAvailable = (\<lambda>u. (True, u + 10)),
      Install = (\<lambda>u. (Some ''disk full'', u + 100))\<rparr>"

text \<open>An argument padded with a tab and a blank in front and with a no-break space
  (U+00A0), a line feed and a blank behind.\<close>

definition padded_arg :: string where
  "padded_arg =
     [CHR 0x09, CHR 0x20] @ ''workflow:data'' @ [CHR 0xC2, CHR 0xA0, CHR 0x0A, CHR 0x20]"

section \<open>The registry\<close>

lemma Register_append: "Register ma (xs @ ys) = Register (Register ma xs) ys"
  by (induction xs arbitrary: ma) simp_all

lemma registry_inv_entries: "registry_inv ma \<longleftrightarrow> (\<forall>k a. ma k = Some a \<longrightarrow> Keyword a = k)"
  unfolding registry_inv_def by auto

lemma registry_inv_empty: "registry_inv Map.empty"
  by (simp add: registry_inv_entries)

lemma registry_inv_upd: "registry_inv ma \<Longrightarrow> registry_inv (ma(Keyword a \<mapsto> a))"
  by (simp add: registry_inv_entries)

lemma registry_inv_del: "registry_inv ma \<Longrightarrow> registry_inv (ma(k := None))"
  by (simp add: registry_inv_entries)

lemma registry_inv_Register: "registry_inv ma \<Longrightarrow> registry_inv (Register ma actions)"
  by (induction actions arbitrary: ma) (simp_all add: registry_inv_upd)

lemma registry_inv_Unregister: "registry_inv ma \<Longrightarrow> registry_inv (Unregister ma actions)"
  by (induction actions arbitrary: ma) (simp_all add: registry_inv_del)

lemma registry_inv_apply_ops: "registry_inv ma \<Longrightarrow> registry_inv (apply_ops ma ops)"
proof (induction ops arbitrary: ma)
  case Nil
  then show ?case by simp
next
  case (Cons op ops)
  have "registry_inv (apply_op ma op)"
    using Cons.prems by (cases op) (simp_all add: registry_inv_Register registry_inv_Unregister)
  then show ?case by (simp add: Cons.IH)
qed

lemma demo_registry_log: "demo_registry ''log'' = Some (openLogMagic demo_ops)"
  by (simp add: demo_registry_def openLogMagic_def openDataMagic_def)

lemma demo_registry_data: "demo_registry ''data'' = Some (openDataMagic demo_ops)"
  by (simp add: demo_registry_def openLogMagic_def openDataMagic_def)

lemma demo_registry_other: "k \<noteq> ''log'' \<Longrightarrow> k \<noteq> ''data'' \<Longrightarrow> demo_registry k = None"
  by (simp add: demo_registry_def openLogMagic_def openDataMagic_def)

text \<open>Claim C6. \<^verbatim>\<open>Register(a)\<close> stores \<open>a\<close> under \<open>a.Keyword()\<close> and leaves every other
  entry as it was; whatever was stored under that keyword before, by an earlier call or
  earlier in the same call, is replaced, and a lookup of the keyword then yields \<open>a\<close>.
  \<^verbatim>\<open>Register\<close> has no failing branch, and the empty keyword is stored like any other.\<close>

theorem Register_last_write_wins:
  "Register ma [a] = ma(Keyword a \<mapsto> a)
   \<and> Register ma [a] (Keyword a) = Some a
   \<and> Register (Register ma [b\<lparr>Keyword := Keyword a\<rparr>]) [a] (Keyword a) = Some a
   \<and> Register ma (actions @ [a]) (Keyword a) = Some a
   \<and> Register ma [a\<lparr>Keyword := []\<rparr>] [] = Some (a\<lparr>Keyword := []\<rparr>)"
  by (simp add: Register_append)

text \<open>Claim C7. \<^verbatim>\<open>Unregister(a)\<close> on a registry with no entry under \<open>a.Keyword()\<close>
  returns the registry as it was; in every case the entry under that keyword is gone
  afterwards, every other entry is untouched, and the set of keys has lost exactly that
  keyword. \<^verbatim>\<open>Unregister\<close> has no failing branch.\<close>

theorem Unregister_removes_by_keyword:
  "(ma (Keyword a) = None \<longrightarrow> Unregister ma [a] = ma)
   \<and> Unregister ma [a] (Keyword a) = None
   \<and> (\<forall>k. k \<noteq> Keyword a \<longrightarrow> Unregister ma [a] k = ma k)
   \<and> dom (Unregister ma [a]) = dom ma - {Keyword a}"
  by auto

theorem Unregister_removes_by_keyword_witness:
  "demo_registry (Keyword (resetMagic demo_ops)) = None
   \<and> Unregister demo_registry [resetMagic demo_ops] = demo_registry
   \<and> demo_registry (Keyword (openLogMagic demo_ops)) = Some (openLogMagic demo_ops)
   \<and> Unregister demo_registry [openLogMagic demo_ops] ''log'' = None
   \<and> ''data'' \<noteq> Keyword (openLogMagic demo_ops)
   \<and> Unregister demo_registry [openLogMagic demo_ops] ''data'' = Some (openDataMagic demo_ops)"
proof -
  have k1: "Keyword (resetMagic demo_ops) = ''reset''" by (simp add: resetMagic_def)
  have k2: "Keyword (openLogMagic demo_ops) = ''log''" by (simp add: openLogMagic_def)
  have absent: "demo_registry (Keyword (resetMagic demo_ops)) = None"
    by (simp add: k1 demo_registry_other)
  have other: "''data'' \<noteq> Keyword (openLogMagic demo_ops)" by (simp add: k2)
  show ?thesis
    using Unregister_removes_by_keyword [of demo_registry "resetMagic demo_ops"]
      Unregister_removes_by_keyword [of demo_registry "openLogMagic demo_ops"]
      absent other
    by (simp add: k2 demo_registry_log demo_registry_data)
qed

text \<open>Claim C8. The default action set is the six built-in actions open-log,
  open-cache, clear-cache, open-data, clear-data and reset, in that order, with the
  keywords log, cache, delcache, data, deldata and reset, no two of them equal. The
  keywords of the help and the update action are not among them, so a registry seeded
  with the default set has no entry for either.\<close>

theorem DefaultMagicActions_six:
  "DefaultMagicActions ops =
     [openLogMagic ops, openCacheMagic ops, clearCacheMagic ops,
      openDataMagic ops, clearDataMagic ops, resetMagic ops]
   \<and> length (DefaultMagicActions ops) = 6
   \<and> map Keyword (DefaultMagicActions ops) =
       [''log'', ''cache'', ''delcache'', ''data'', ''deldata'', ''reset'']
   \<and> distinct (map Keyword (DefaultMagicActions ops))
   \<and> Keyword (helpMagic exec_Command URL) \<notin> set (map Keyword (DefaultMagicActions ops))
   \<and> Keyword (updateMagic updater) \<notin> set (map Keyword (DefaultMagicActions ops))
   \<and> Register Map.empty (DefaultMagicActions ops) ''help'' = None
   \<and> Register Map.empty (DefaultMagicActions ops) ''update'' = None"
  by (simp add: DefaultMagicActions_def openLogMagic_def openCacheMagic_def
      clearCacheMagic_def openDataMagic_def clearDataMagic_def resetMagic_def
      helpMagic_def updateMagic_def)

text \<open>Claim C9. The registry invariant (every entry is stored under its own keyword,
  and no keyword belongs to two stored actions) holds for the empty registry, is
  preserved by \<^verbatim>\<open>Register\<close> and by \<^verbatim>\<open>Unregister\<close>, and so holds after every sequence
  of the two that starts from the empty registry.\<close>

theorem registry_inv_preserved:
  "registry_inv Map.empty
   \<and> (registry_inv ma \<longrightarrow>
        registry_inv (Register ma actions) \<and> registry_inv (Unregister ma actions))
   \<and> registry_inv (apply_ops Map.empty ops)"
  by (simp add: registry_inv_empty registry_inv_Register registry_inv_Unregister
      registry_inv_apply_ops)

theorem registry_inv_preserved_witness:
  "registry_inv (Map.empty :: string list MagicActions)
   \<and> registry_inv (Register Map.empty (DefaultMagicActions demo_ops))
   \<and> registry_inv (Unregister Map.empty (DefaultMagicActions demo_ops))
   \<and> registry_inv
       (apply_ops Map.empty
          [RegisterOp (DefaultMagicActions demo_ops),
           UnregisterOp [openLogMagic demo_ops],
           RegisterOp [resetMagic demo_ops]])
   \<and> apply_ops Map.empty
        [RegisterOp (DefaultMagicActions demo_ops),
         UnregisterOp [openLogMagic demo_ops],
         RegisterOp [resetMagic demo_ops]] ''reset'' = Some (resetMagic demo_ops)
   \<and> Keyword (resetMagic demo_ops) = ''reset''
   \<and> apply_ops Map.empty
        [RegisterOp (DefaultMagicActions demo_ops),
         UnregisterOp [openLogMagic demo_ops],
         RegisterOp [resetMagic demo_ops]] ''log'' = None"
proof -
  have ev: "apply_ops Map.empty
        [RegisterOp (DefaultMagicActions demo_ops),
         UnregisterOp [openLogMagic demo_ops],
         RegisterOp [resetMagic demo_ops]] ''reset'' = Some (resetMagic demo_ops)
    \<and> Keyword (resetMagic demo_ops) = ''reset''
    \<and> apply_ops Map.empty
        [RegisterOp (DefaultMagicActions demo_ops),
         UnregisterOp [openLogMagic demo_ops],
         RegisterOp [resetMagic demo_ops]] ''log'' = None"
    by (simp add: DefaultMagicActions_def openLogMagic_def openCacheMagic_def
        clearCacheMagic_def openDataMagic_def clearDataMagic_def resetMagic_def)
  show ?thesis
    using registry_inv_preserved
            [of "Map.empty :: string list MagicActions" "DefaultMagicActions demo_ops"
                "[RegisterOp (DefaultMagicActions demo_ops),
                  UnregisterOp [openLogMagic demo_ops],
                  RegisterOp [resetMagic demo_ops]]"]
          ev
    by blast
qed

section \<open>The update action\<close>

text \<open>Claim C10. When \<^verbatim>\<open>CheckForUpdate\<close> fails, \<^verbatim>\<open>Run\<close> of the update action returns
  that error and has called nothing else. When it succeeds and \<^verbatim>\<open>UpdateAvailable\<close>
  says no, \<^verbatim>\<open>Run\<close> returns success and has logged "No update available" instead of
  calling \<^verbatim>\<open>Install\<close>. When it succeeds and \<^verbatim>\<open>UpdateAvailable\<close> says yes, \<^verbatim>\<open>Run\<close>
  calls \<^verbatim>\<open>Install\<close> and returns its result. So \<^verbatim>\<open>Install\<close> is among the calls of a
  run exactly when the check succeeded and an update is available.\<close>

theorem updateMagic_Run_cases:
  "(CheckForUpdate updater (ustate w) = (Some err, u1) \<longrightarrow>
      Run (updateMagic updater) w =
        (Some err, \<lparr>ustate = u1, calls = calls w @ [CheckForUpdateCall]\<rparr>))
   \<and> (CheckForUpdate updater (ustate w) = (None, u1)
        \<and> UpdateAvailable updater u1 = (False, u2) \<longrightarrow>
      Run (updateMagic updater) w =
        (None, \<lparr>ustate = u2,
                calls = calls w @ [CheckForUpdateCall, UpdateAvailableCall,
                                   LogPrintln ''No update available'']\<rparr>))
   \<and> (CheckForUpdate updater (ustate w) = (None, u1)
        \<and> UpdateAvailable updater u1 = (True, u2)
        \<and> Install updater u2 = (r, u3) \<longrightarrow>
      Run (updateMagic updater) w =
        (r, \<lparr>ustate = u3,
             calls = calls w @ [CheckForUpdateCall, UpdateAvailableCall, InstallCall]\<rparr>))
   \<and> (InstallCall \<in> set (drop (length (calls w)) (calls (snd (Run (updateMagic updater) w))))
        \<longleftrightarrow> fst (CheckForUpdate updater (ustate w)) = None
            \<and> fst (UpdateAvailable updater (snd (CheckForUpdate updater (ustate w)))))"
  by (auto simp: updateMagic_def updateMagic_Run_def
      split: prod.splits option.splits bool.splits)

theorem updateMagic_Run_cases_witness:
  "CheckForUpdate failing_updater (ustate \<lparr>ustate = 0, calls = []\<rparr>) = (Some ''network down'', 1)
   \<and> Run (updateMagic failing_updater) \<lparr>ustate = 0, calls = []\<rparr> =
       (Some ''network down'', \<lparr>ustate = 1, calls = [CheckForUpdateCall]\<rparr>)
   \<and> CheckForUpdate idle_updater (ustate \<lparr>ustate = 0, calls = []\<rparr>) = (None, 1)
   \<and> UpdateAvailable idle_updater 1 = (False, 11)
   \<and> Run (updateMagic idle_updater) \<lparr>ustate = 0, calls = []\<rparr> =
       (None, \<lparr>ustate = 11,
               calls = [CheckForUpdateCall, UpdateAvailableCall,
                        LogPrintln ''No update available'']\<rparr>)
   \<and> CheckForUpdate installing_updater (ustate \<lparr>ustate = 0, calls = []\<rparr>) = (None, 1)
   \<and> UpdateAvailable installing_updater 1 = (True, 11)
   \<and> Install installing_updater 11 = (Some ''disk full'', 111)
   \<and> Run (updateMagic installing_updater) \<lparr>ustate = 0, calls = []\<rparr> =
       (Some ''disk full'',
        \<lparr>ustate = 111, calls = [CheckForUpdateCall, UpdateAvailableCall, InstallCall]\<rparr>)"
proof -
  have c1: "CheckForUpdate failing_updater (ustate \<lparr>ustate = 0, calls = []\<rparr>)
              = (Some ''network down'', 1)"
    by (simp add: failing_updater_def)
  have c2: "CheckForUpdate idle_updater (ustate \<lparr>ustate = 0, calls = []\<rparr>) = (None, 1)"
    by (simp add: idle_updater_def)
  have a2: "UpdateAvailable idle_updater 1 = (False, 11)"
    by (simp add: idle_updater_def)
  have c3: "CheckForUpdate installing_updater (ustate \<lparr>ustate = 0, calls = []\<rparr>) = (None, 1)"
    by (simp add: installing_updater_def)
  have a3: "UpdateAvailable installing_updater 1 = (True, 11)"
    by (simp add: installing_updater_def)
  have i3: "Install installing_updater 11 = (Some ''disk full'', 111)"
    by (simp add: installing_updater_def)
  show ?thesis
    using updateMagic_Run_cases
            [of failing_updater "\<lparr>ustate = 0, calls = []\<rparr>" "''network down''" 1 11 None 111]
          updateMagic_Run_cases
            [of idle_updater "\<lparr>ustate = 0, calls = []\<rparr>" "''none''" 1 11 None 111]
          updateMagic_Run_cases
            [of installing_updater "\<lparr>ustate = 0, calls = []\<rparr>" "''none''" 1 11
                "Some ''disk full''" 111]
          c1 c2 a2 c3 a3 i3
    by simp
qed

section \<open>The argument interceptor\<close>

lemma HasPrefix_append: "HasPrefix (p @ k) p"
  by (simp add: HasPrefix_def)

lemma Args_loop_skip:
  "\<forall>a\<in>set pre. \<not> HasPrefix (TrimSpace a) prefix \<Longrightarrow>
   Args_loop ma keys prefix (pre @ rest) x = Args_loop ma keys prefix rest x"
  by (induction pre) simp_all

lemma Args_loop_none:
  "\<forall>a\<in>set args. \<not> HasPrefix (TrimSpace a) prefix \<Longrightarrow> Args_loop ma keys prefix args x = None"
  using Args_loop_skip [of args prefix ma keys "[]" x] by simp

lemma Args_loop_run:
  assumes "TrimSpace arg = prefix @ k" and "ma k = Some action" and "Run action x = (err, x')"
  shows "Args_loop ma keys prefix (arg # post) x =
    Some \<lparr>outcome = Exit 0,
          trace = [LogPrintf (RunText action) [], NewItem (runItem action), SendFeedback,
                   RunCall action]
                  @ (case err of
                       Some e \<Rightarrow> [LogPrintf ''Error running magic arg `%s`: %s''
                                    [Description action, e],
                                  FinishLog True]
                     | None \<Rightarrow> [])
                  @ [FinishLog False],
          world = x'\<rparr>"
  using assms by (simp add: HasPrefix_append)

lemma Args_loop_list:
  assumes "TrimSpace arg = prefix @ k" and "ma k = None"
  shows "Args_loop ma keys prefix (arg # post) x =
    Some \<lparr>outcome = Exit 0,
          trace = listing ma prefix keys
                  @ [Filter k, WarnEmpty ''No matching action'' ''Try another query?'',
                     SendFeedback],
          world = x\<rparr>"
  using assms by (simp add: HasPrefix_append)

lemma listing_map:
  "set keys \<subseteq> dom ma \<Longrightarrow>
   listing ma prefix keys = map (\<lambda>kw. NewItem (listItem prefix kw (the (ma kw)))) keys"
  by (induction keys) auto

lemma run_calls_append: "run_calls (es @ fs) = run_calls es @ run_calls fs"
  by (induction es rule: run_calls.induct) simp_all

lemma fallback_calls_append: "fallback_calls (es @ fs) = fallback_calls es @ fallback_calls fs"
  by (induction es rule: fallback_calls.induct) simp_all

lemma run_calls_listing: "run_calls (listing ma prefix keys) = []"
  by (induction keys) (simp_all split: option.splits)

lemma fallback_calls_listing: "fallback_calls (listing ma prefix keys) = []"
  by (induction keys) (simp_all split: option.splits)

lemma feedback_run_append:
  "feedback_run fuzzy fb (es @ fs) = feedback_run fuzzy (feedback_run fuzzy fb es) fs"
  by (simp add: feedback_run_def)

lemma feedback_run_items:
  "feedback_run fuzzy fb (map NewItem its :: 'x event list) = fb\<lparr>Items := Items fb @ its\<rparr>"
proof (induction its arbitrary: fb)
  case Nil
  then show ?case by (simp add: feedback_run_def)
next
  case (Cons it its)
  have "feedback_run fuzzy fb (map NewItem (it # its) :: 'x event list)
          = feedback_run fuzzy (fb\<lparr>Items := Items fb @ [it]\<rparr>) (map NewItem its :: 'x event list)"
    by (simp add: feedback_run_def)
  then show ?case by (simp add: Cons.IH)
qed

lemma listItem_inj: "listItem prefix kw a = listItem prefix kw' a' \<Longrightarrow> kw = kw'"
  by (simp add: listItem_def)


lemma count_list_distinct: "distinct xs \<Longrightarrow> x \<in> set xs \<Longrightarrow> count_list xs x = 1"
  by (induction xs) auto

lemma count_listing:
  assumes "distinct keys" and "set keys \<subseteq> dom ma" and "kw \<in> set keys"
  shows "count_list (listing ma prefix keys) (NewItem (listItem prefix kw (the (ma kw)))) = 1"
proof -
  let ?f = "\<lambda>kw. NewItem (listItem prefix kw (the (ma kw))) :: 'a event"
  have inj: "inj_on ?f (set keys)"
    by (rule inj_onI) (auto dest: listItem_inj)
  have "count_list (map ?f keys) (?f kw) = count_list keys kw"
    using inj assms(3) by (rule count_list_inj_map)
  then show ?thesis
    using assms by (simp add: listing_map count_list_distinct)
qed

lemma length_listing: "distinct keys \<Longrightarrow> set keys = dom ma \<Longrightarrow> length (listing ma prefix keys) = card (dom ma)"
  by (simp add: listing_map distinct_card [symmetric])

lemma feedback_run_fallback:
  "Sent (feedback_run fuzzy fb
          (map NewItem its @ [Filter q, WarnEmpty t s, SendFeedback] :: 'x event list))
     = Sent fb @ [if fuzzy q (Items fb @ its) = [] then [warnItem t s]
                  else fuzzy q (Items fb @ its)]"
  by (simp add: feedback_run_append feedback_run_items) (simp add: feedback_run_def)

lemma trim_foo: "TrimSpace ''foo'' = ''foo''"
  by code_simp

lemma trim_bar: "TrimSpace '' bar '' = ''bar''"
  by code_simp

lemma trim_data: "TrimSpace '' workflow:data'' = ''workflow:data''"
  by code_simp

lemma trim_log: "TrimSpace ''workflow:log'' = ''workflow:log''"
  by code_simp

lemma trim_LOG: "TrimSpace ''workflow:LOG'' = ''workflow:LOG''"
  by code_simp

lemma trim_xyz: "TrimSpace ''workflow:xyz'' = ''workflow:xyz''"
  by code_simp

lemma trim_delcache: "TrimSpace ''workflow:delcache  '' = ''workflow:delcache''"
  by code_simp

lemma demo_registry_dom: "dom demo_registry = {''log'', ''data''}"
  by (auto simp: demo_registry_def openLogMagic_def openDataMagic_def)

lemma default_registry_delcache:
  "Register Map.empty (DefaultMagicActions demo_ops) ''delcache'' = Some (clearCacheMagic demo_ops)"
  by (simp add: DefaultMagicActions_def openLogMagic_def openCacheMagic_def
      clearCacheMagic_def openDataMagic_def clearDataMagic_def resetMagic_def)

text \<open>Claim C3. When no argument, once its surrounding white space is trimmed, starts
  with the prefix, \<^verbatim>\<open>Args\<close> returns the argument vector it was given (the original
  strings, untrimmed), has made no call to the logger or to the feedback channel, has
  run no action and leaves the world as it was.\<close>

theorem Args_returns_args:
  assumes "\<forall>a\<in>set args. \<not> HasPrefix (TrimSpace a) prefix"
  shows "Args ma keys args prefix x = \<lparr>outcome = Return args, trace = [], world = x\<rparr>"
  using assms by (simp add: Args_def Args_loop_none)

theorem Args_returns_args_witness:
  "\<not> HasPrefix (TrimSpace ''foo'') ''workflow:''
   \<and> \<not> HasPrefix (TrimSpace '' bar '') ''workflow:''
   \<and> Args demo_registry [''log'', ''data''] [''foo'', '' bar ''] ''workflow:'' []
       = \<lparr>outcome = Return [''foo'', '' bar ''], trace = [], world = []\<rparr>"
proof -
  have h: "\<forall>a\<in>set [''foo'', '' bar '']. \<not> HasPrefix (TrimSpace a) ''workflow:''"
    by (simp add: trim_foo trim_bar HasPrefix_def)
  show ?thesis
    using h Args_returns_args [OF h, of demo_registry "[''log'', ''data'']" "[]"] by simp
qed

text \<open>Claim C1, as amended. Let the first argument whose trimmed form starts with the
  prefix be \<open>prefix + k\<close> after trimming, with \<open>k\<close> a key of the registry. Then \<^verbatim>\<open>Args\<close>
  invokes \<^verbatim>\<open>Run\<close> of the action stored under \<open>k\<close> exactly once (and of no other
  action), makes none of the calls of the fallback listing, and ends the process with
  exit status 0. The arguments before it carry no prefix; those after it are
  arbitrary. As stated in the claim (some element of the vector is \<open>prefix + k\<close>) the
  property fails: an earlier prefixed argument with an unregistered keyword sends
  \<^verbatim>\<open>Args\<close> into the fallback listing, and the registered action is never run.\<close>

theorem Args_runs_registered:
  assumes "\<forall>a\<in>set pre. \<not> HasPrefix (TrimSpace a) prefix"
    and "TrimSpace arg = prefix @ k"
    and "ma k = Some action"
  shows "outcome (Args ma keys (pre @ arg # post) prefix x) = Exit 0
    \<and> run_calls (trace (Args ma keys (pre @ arg # post) prefix x)) = [action]
    \<and> fallback_calls (trace (Args ma keys (pre @ arg # post) prefix x)) = []
    \<and> world (Args ma keys (pre @ arg # post) prefix x) = snd (Run action x)
    \<and> trace (Args ma keys (pre @ arg # post) prefix x) =
        [LogPrintf (RunText action) [], NewItem (runItem action), SendFeedback, RunCall action]
        @ (case fst (Run action x) of
             Some e \<Rightarrow> [LogPrintf ''Error running magic arg `%s`: %s'' [Description action, e],
                        FinishLog True]
           | None \<Rightarrow> [])
        @ [FinishLog False]"
proof -
  obtain err x' where run: "Run action x = (err, x')"
    by (cases "Run action x")
  have "Args_loop ma keys prefix (pre @ arg # post) x = Args_loop ma keys prefix (arg # post) x"
    using assms(1) by (rule Args_loop_skip)
  then show ?thesis
    using Args_loop_run [where ma = ma and k = k and keys = keys and post = post,
        OF assms(2) assms(3) run]
    by (cases err) (simp_all add: Args_def run)
qed

theorem Args_runs_registered_witness:
  "\<not> HasPrefix (TrimSpace ''foo'') ''workflow:''
   \<and> TrimSpace '' workflow:data'' = ''workflow:'' @ ''data''
   \<and> demo_registry ''data'' = Some (openDataMagic demo_ops)
   \<and> outcome (Args demo_registry [''log'', ''data''] [''foo'', '' workflow:data'', ''workflow:log'']
        ''workflow:'' []) = Exit 0
   \<and> run_calls (trace (Args demo_registry [''log'', ''data'']
        [''foo'', '' workflow:data'', ''workflow:log''] ''workflow:'' [])) = [openDataMagic demo_ops]
   \<and> fallback_calls (trace (Args demo_registry [''log'', ''data'']
        [''foo'', '' workflow:data'', ''workflow:log''] ''workflow:'' [])) = []
   \<and> world (Args demo_registry [''log'', ''data'']
        [''foo'', '' workflow:data'', ''workflow:log''] ''workflow:'' []) = [''OpenData'']"
proof -
  have h1: "\<forall>a\<in>set [''foo'']. \<not> HasPrefix (TrimSpace a) ''workflow:''"
    by (simp add: trim_foo HasPrefix_def)
  have h2: "TrimSpace '' workflow:data'' = ''workflow:'' @ ''data''"
    by (simp add: trim_data)
  have h1': "\<not> HasPrefix (TrimSpace ''foo'') ''workflow:''"
    using h1 by simp
  have run: "snd (Run (openDataMagic demo_ops) []) = [''OpenData'']"
    by (simp add: openDataMagic_def demo_ops_def)
  note T = Args_runs_registered [where ma = demo_registry and k = "''data''"
        and keys = "[''log'', ''data'']" and post = "[''workflow:log'']" and x = "[]",
        OF h1 h2 demo_registry_data]
  from T have "world (Args demo_registry [''log'', ''data'']
        ([''foo''] @ '' workflow:data'' # [''workflow:log'']) ''workflow:'' [])
      = snd (Run (openDataMagic demo_ops) [])"
    by blast
  with run have w: "world (Args demo_registry [''log'', ''data'']
        ([''foo''] @ '' workflow:data'' # [''workflow:log'']) ''workflow:'' []) = [''OpenData'']"
    by simp
  have args: "[''foo''] @ '' workflow:data'' # [''workflow:log'']
      = [''foo'', '' workflow:data'', ''workflow:log'']"
    by simp
  show ?thesis
    using h1' h2 demo_registry_data T w unfolding args by blast
qed

theorem Args_registered_not_first_counterexample:
  "''workflow:log'' \<in> set [''workflow:xyz'', ''workflow:log'']
   \<and> TrimSpace ''workflow:log'' = ''workflow:'' @ ''log''
   \<and> demo_registry ''log'' = Some (openLogMagic demo_ops)
   \<and> run_calls (trace (Args demo_registry [''log'', ''data'']
        [''workflow:xyz'', ''workflow:log''] ''workflow:'' [])) = []
   \<and> fallback_calls (trace (Args demo_registry [''log'', ''data'']
        [''workflow:xyz'', ''workflow:log''] ''workflow:'' []))
       = [Filter ''xyz'', WarnEmpty ''No matching action'' ''Try another query?'']"
proof -
  have h: "TrimSpace ''workflow:xyz'' = ''workflow:'' @ ''xyz''"
    by (simp add: trim_xyz)
  have none: "demo_registry ''xyz'' = None"
    by (simp add: demo_registry_other)
  have "Args_loop demo_registry [''log'', ''data''] ''workflow:''
          [''workflow:xyz'', ''workflow:log''] []
        = Some \<lparr>outcome = Exit 0,
                trace = listing demo_registry ''workflow:'' [''log'', ''data'']
                  @ [Filter ''xyz'', WarnEmpty ''No matching action'' ''Try another query?'',
                     SendFeedback],
                world = []\<rparr>"
    using h none by (rule Args_loop_list)
  then have tr: "trace (Args demo_registry [''log'', ''data'']
        [''workflow:xyz'', ''workflow:log''] ''workflow:'' [])
      = listing demo_registry ''workflow:'' [''log'', ''data'']
        @ [Filter ''xyz'', WarnEmpty ''No matching action'' ''Try another query?'',
           SendFeedback]"
    by (simp add: Args_def)
  have r: "run_calls (trace (Args demo_registry [''log'', ''data'']
        [''workflow:xyz'', ''workflow:log''] ''workflow:'' [])) = []"
    unfolding tr by (simp add: run_calls_append run_calls_listing del: listing.simps)
  have f: "fallback_calls (trace (Args demo_registry [''log'', ''data'']
        [''workflow:xyz'', ''workflow:log''] ''workflow:'' []))
       = [Filter ''xyz'', WarnEmpty ''No matching action'' ''Try another query?'']"
    unfolding tr by (simp add: fallback_calls_append fallback_calls_listing del: listing.simps)
  have m: "''workflow:log'' \<in> set [''workflow:xyz'', ''workflow:log'']"
    by simp
  have t: "TrimSpace ''workflow:log'' = ''workflow:'' @ ''log''"
    by (simp add: trim_log)
  show ?thesis
    using m t demo_registry_log r f by blast
qed

text \<open>Claim C5. When \<^verbatim>\<open>Run\<close> of the dispatched action returns an error, \<^verbatim>\<open>Args\<close> logs
  the line \<^verbatim>\<open>Error running magic arg `%s`: %s\<close> with the action's description and
  the error as operands, calls \<^verbatim>\<open>finishLog(true)\<close> and then \<^verbatim>\<open>finishLog(false)\<close>, and
  ends the process with exit status 0. Both flushes occur because \<^verbatim>\<open>finishLog\<close>, as
  the spec describes it, returns to its caller.\<close>

theorem Args_failed_run:
  assumes "\<forall>a\<in>set pre. \<not> HasPrefix (TrimSpace a) prefix"
    and "TrimSpace arg = prefix @ k"
    and "ma k = Some action"
    and "Run action x = (Some err, x')"
  shows "trace (Args ma keys (pre @ arg # post) prefix x) =
        [LogPrintf (RunText action) [], NewItem (runItem action), SendFeedback, RunCall action,
         LogPrintf ''Error running magic arg `%s`: %s'' [Description action, err],
         FinishLog True, FinishLog False]
    \<and> finish_calls (trace (Args ma keys (pre @ arg # post) prefix x)) = [True, False]
    \<and> outcome (Args ma keys (pre @ arg # post) prefix x) = Exit 0
    \<and> world (Args ma keys (pre @ arg # post) prefix x) = x'"
proof -
  have "Args_loop ma keys prefix (pre @ arg # post) x = Args_loop ma keys prefix (arg # post) x"
    using assms(1) by (rule Args_loop_skip)
  then show ?thesis
    using Args_loop_run [where ma = ma and k = k and keys = keys and post = post,
        OF assms(2) assms(3) assms(4)]
    by (simp add: Args_def)
qed

theorem Args_failed_run_witness:
  "TrimSpace ''workflow:delcache  '' = ''workflow:'' @ ''delcache''
   \<and> Register Map.empty (DefaultMagicActions demo_ops) ''delcache'' = Some (clearCacheMagic demo_ops)
   \<and> Run (clearCacheMagic demo_ops) [] = (Some ''permission denied'', [''ClearCache''])
   \<and> trace (Args (Register Map.empty (DefaultMagicActions demo_ops))
        [''log'', ''cache'', ''delcache'', ''data'', ''deldata'', ''reset'']
        [''workflow:delcache  ''] ''workflow:'' []) =
       [LogPrintf ''Deleted workflow's cached data'' [],
        NewItem (runItem (clearCacheMagic demo_ops)),
        SendFeedback,
        RunCall (clearCacheMagic demo_ops),
        LogPrintf ''Error running magic arg `%s`: %s''
          [''Delete workflow's cached data'', ''permission denied''],
        FinishLog True, FinishLog False]
   \<and> outcome (Args (Register Map.empty (DefaultMagicActions demo_ops))
        [''log'', ''cache'', ''delcache'', ''data'', ''deldata'', ''reset'']
        [''workflow:delcache  ''] ''workflow:'' []) = Exit 0"
proof -
  have h1: "\<forall>a\<in>set []. \<not> HasPrefix (TrimSpace a) ''workflow:''"
    by simp
  have h2: "TrimSpace ''workflow:delcache  '' = ''workflow:'' @ ''delcache''"
    by (simp add: trim_delcache)
  have run: "Run (clearCacheMagic demo_ops) [] = (Some ''permission denied'', [''ClearCache''])"
    by (simp add: clearCacheMagic_def demo_ops_def)
  have texts: "RunText (clearCacheMagic demo_ops) = ''Deleted workflow's cached data''"
    and descr: "Description (clearCacheMagic demo_ops) = ''Delete workflow's cached data''"
    by (simp_all add: clearCacheMagic_def)
  show ?thesis
    using h2 default_registry_delcache run
      Args_failed_run [where ma = "Register Map.empty (DefaultMagicActions demo_ops)"
        and k = "''delcache''" and post = "[]"
        and keys = "[''log'', ''cache'', ''delcache'', ''data'', ''deldata'', ''reset'']",
        OF h1 h2 default_registry_delcache run]
    by (simp add: texts descr)
qed

lemma HasPrefix_split: "HasPrefix s p \<Longrightarrow> s = p @ drop (length p) s"
  unfolding HasPrefix_def by (metis append_take_drop_id)

lemma demo_order: "range_order demo_registry [''log'', ''data'']"
  by (auto simp: range_order_def demo_registry_dom)

text \<open>Claim C2, as amended. Let the first argument whose trimmed form starts with the
  prefix be \<open>prefix + k\<close> after trimming, with \<open>k\<close> not a key of the registry. Then
  \<^verbatim>\<open>Args\<close> creates one feedback item for every entry of the registry, in the order the
  map is ranged over: its title is the action's keyword, its subtitle and UID the
  description, its autocomplete string the prefix followed by the key the action is
  stored under (the action's keyword, in a registry that satisfies the invariant), its
  match string keyword, a space, description. It then calls \<^verbatim>\<open>Filter(k)\<close>,
  \<^verbatim>\<open>WarnEmpty("No matching action", "Try another query?")\<close> and \<^verbatim>\<open>SendFeedback()\<close>,
  runs no action, leaves the world as it was and ends the process with exit status 0.
  On the feedback channel of the spec, what is sent is the filtered buffer, or the
  warning placeholder alone when filtering has left nothing. As stated in the claim
  (some element of the vector is \<open>prefix + k\<close>) the property fails: an earlier prefixed
  argument with a registered keyword has its action run.\<close>

theorem Args_lists_unregistered:
  assumes "\<forall>a\<in>set pre. \<not> HasPrefix (TrimSpace a) prefix"
    and "TrimSpace arg = prefix @ k"
    and "ma k = None"
    and "range_order ma keys"
  shows "outcome (Args ma keys (pre @ arg # post) prefix x) = Exit 0
    \<and> world (Args ma keys (pre @ arg # post) prefix x) = x
    \<and> run_calls (trace (Args ma keys (pre @ arg # post) prefix x)) = []
    \<and> trace (Args ma keys (pre @ arg # post) prefix x) =
        map (\<lambda>kw. NewItem (listItem prefix kw (the (ma kw)))) keys
        @ [Filter k, WarnEmpty ''No matching action'' ''Try another query?'', SendFeedback]
    \<and> length (trace (Args ma keys (pre @ arg # post) prefix x)) = card (dom ma) + 3
    \<and> (\<forall>kw a. ma kw = Some a \<longrightarrow>
          count_list (trace (Args ma keys (pre @ arg # post) prefix x))
            (NewItem \<lparr>Title = Keyword a, Subtitle = Some (Description a), Valid = Some False,
                      ItemIcon = Some IconInfo, UID = Some (Description a),
                      Autocomplete = Some (prefix @ kw),
                      Match = Some (Keyword a @ '' '' @ Description a)\<rparr>) = 1)
    \<and> (registry_inv ma \<longrightarrow>
          (\<forall>kw a. ma kw = Some a \<longrightarrow>
             Autocomplete (listItem prefix kw a) = Some (prefix @ Keyword a)))
    \<and> Sent (feedback_run fuzzy fb (trace (Args ma keys (pre @ arg # post) prefix x))) =
        Sent fb @
        [if fuzzy k (Items fb @ map (\<lambda>kw. listItem prefix kw (the (ma kw))) keys) = []
         then [warnItem ''No matching action'' ''Try another query?'']
         else fuzzy k (Items fb @ map (\<lambda>kw. listItem prefix kw (the (ma kw))) keys)]"
proof -
  let ?r = "Args ma keys (pre @ arg # post) prefix x"
  let ?tail = "[Filter k, WarnEmpty ''No matching action'' ''Try another query?'',
                SendFeedback] :: 'a event list"
  have keys: "distinct keys" "set keys = dom ma"
    using assms(4) by (simp_all add: range_order_def)
  have "Args_loop ma keys prefix (pre @ arg # post) x = Args_loop ma keys prefix (arg # post) x"
    using assms(1) by (rule Args_loop_skip)
  also have "\<dots> = Some \<lparr>outcome = Exit 0, trace = listing ma prefix keys @ ?tail, world = x\<rparr>"
    using assms(2) assms(3) by (rule Args_loop_list)
  finally have r: "?r = \<lparr>outcome = Exit 0, trace = listing ma prefix keys @ ?tail, world = x\<rparr>"
    by (simp add: Args_def)
  have tr: "trace ?r = listing ma prefix keys @ ?tail"
    by (simp add: r)
  have lm: "listing ma prefix keys = map (\<lambda>kw. NewItem (listItem prefix kw (the (ma kw)))) keys"
    using keys(2) by (simp add: listing_map)
  have c1: "outcome ?r = Exit 0" and c2: "world ?r = x"
    by (simp_all add: r)
  have c3: "run_calls (trace ?r) = []"
    unfolding tr by (simp add: run_calls_append run_calls_listing)
  have c4: "trace ?r = map (\<lambda>kw. NewItem (listItem prefix kw (the (ma kw)))) keys @ ?tail"
    unfolding tr lm ..
  have c5: "length (trace ?r) = card (dom ma) + 3"
    unfolding tr using keys by (simp add: length_listing)
  have c6: "count_list (trace ?r)
            (NewItem \<lparr>Title = Keyword a, Subtitle = Some (Description a), Valid = Some False,
                      ItemIcon = Some IconInfo, UID = Some (Description a),
                      Autocomplete = Some (prefix @ kw),
                      Match = Some (Keyword a @ '' '' @ Description a)\<rparr>) = 1"
    if "ma kw = Some a" for kw a
  proof -
    have "kw \<in> set keys"
      using that keys(2) by auto
    then have "count_list (listing ma prefix keys) (NewItem (listItem prefix kw (the (ma kw)))) = 1"
      using keys by (intro count_listing) simp_all
    then show ?thesis
      unfolding tr using that by (simp add: listItem_def)
  qed
  have c7: "Autocomplete (listItem prefix kw a) = Some (prefix @ Keyword a)"
    if "registry_inv ma" "ma kw = Some a" for kw a
    using that by (simp add: registry_inv_entries listItem_def)
  have c8: "Sent (feedback_run fuzzy fb (trace ?r)) =
        Sent fb @
        [if fuzzy k (Items fb @ map (\<lambda>kw. listItem prefix kw (the (ma kw))) keys) = []
         then [warnItem ''No matching action'' ''Try another query?'']
         else fuzzy k (Items fb @ map (\<lambda>kw. listItem prefix kw (the (ma kw))) keys)]"
  proof -
    have "trace ?r = map NewItem (map (\<lambda>kw. listItem prefix kw (the (ma kw))) keys) @ ?tail"
      unfolding c4 by simp
    then show ?thesis
      by (simp only: feedback_run_fallback)
  qed
  show ?thesis
    using c1 c2 c3 c4 c5 c6 c7 c8 by blast
qed


theorem Args_lists_unregistered_witness:
  "\<not> HasPrefix (TrimSpace ''foo'') ''workflow:''
   \<and> TrimSpace ''workflow:xyz'' = ''workflow:'' @ ''xyz''
   \<and> demo_registry ''xyz'' = None
   \<and> range_order demo_registry [''log'', ''data'']
   \<and> demo_registry ''data'' = Some (openDataMagic demo_ops)
   \<and> registry_inv demo_registry
   \<and> outcome (Args demo_registry [''log'', ''data''] [''foo'', ''workflow:xyz''] ''workflow:'' [])
       = Exit 0
   \<and> run_calls (trace (Args demo_registry [''log'', ''data''] [''foo'', ''workflow:xyz'']
        ''workflow:'' [])) = []
   \<and> trace (Args demo_registry [''log'', ''data''] [''foo'', ''workflow:xyz''] ''workflow:'' [])
       = [NewItem (listItem ''workflow:'' ''log'' (openLogMagic demo_ops)),
          NewItem (listItem ''workflow:'' ''data'' (openDataMagic demo_ops)),
          Filter ''xyz'',
          WarnEmpty ''No matching action'' ''Try another query?'',
          SendFeedback]
   \<and> count_list
        (trace (Args demo_registry [''log'', ''data''] [''foo'', ''workflow:xyz''] ''workflow:'' []))
        (NewItem \<lparr>Title = ''data'', Subtitle = Some ''Open workflow's data directory'',
                  Valid = Some False, ItemIcon = Some IconInfo,
                  UID = Some ''Open workflow's data directory'',
                  Autocomplete = Some ''workflow:data'',
                  Match = Some ''data Open workflow's data directory''\<rparr>) = 1
   \<and> Autocomplete (listItem ''workflow:'' ''data'' (openDataMagic demo_ops))
       = Some ''workflow:data''
   \<and> Sent (feedback_run demo_filter \<lparr>Items = [], Sent = []\<rparr>
        (trace (Args demo_registry [''log'', ''data''] [''foo'', ''workflow:xyz'']
           ''workflow:'' [])))
       = [[warnItem ''No matching action'' ''Try another query?'']]"
proof -
  let ?r = "Args demo_registry [''log'', ''data''] ([''foo''] @ ''workflow:xyz'' # []) ''workflow:'' []"
  have h1: "\<forall>a\<in>set [''foo'']. \<not> HasPrefix (TrimSpace a) ''workflow:''"
    by (simp add: trim_foo HasPrefix_def)
  have h1': "\<not> HasPrefix (TrimSpace ''foo'') ''workflow:''"
    using h1 by simp
  have h2: "TrimSpace ''workflow:xyz'' = ''workflow:'' @ ''xyz''"
    by (simp add: trim_xyz)
  have h3: "demo_registry ''xyz'' = None"
    by (simp add: demo_registry_other)
  have inv: "registry_inv demo_registry"
    unfolding demo_registry_def by (intro registry_inv_Register registry_inv_empty)
  have kd: "Keyword (openDataMagic demo_ops) = ''data''"
    and dd: "Description (openDataMagic demo_ops) = ''Open workflow's data directory''"
    by (simp_all add: openDataMagic_def)
  note T = Args_lists_unregistered [where ma = demo_registry and k = "''xyz''"
      and post = "[]" and x = "[]" and fuzzy = demo_filter and fb = "\<lparr>Items = [], Sent = []\<rparr>",
      OF h1 h2 h3 demo_order]
  from T have c1: "outcome ?r = Exit 0" and c3: "run_calls (trace ?r) = []"
    by blast+
  from T have "trace ?r =
      map (\<lambda>kw. NewItem (listItem ''workflow:'' kw (the (demo_registry kw)))) [''log'', ''data'']
      @ [Filter ''xyz'', WarnEmpty ''No matching action'' ''Try another query?'', SendFeedback]"
    by blast
  then have c4: "trace ?r =
      [NewItem (listItem ''workflow:'' ''log'' (openLogMagic demo_ops)),
       NewItem (listItem ''workflow:'' ''data'' (openDataMagic demo_ops)),
       Filter ''xyz'', WarnEmpty ''No matching action'' ''Try another query?'', SendFeedback]"
    by (simp add: demo_registry_log demo_registry_data)
  from T have "count_list (trace ?r)
        (NewItem \<lparr>Title = Keyword (openDataMagic demo_ops),
                  Subtitle = Some (Description (openDataMagic demo_ops)),
                  Valid = Some False, ItemIcon = Some IconInfo,
                  UID = Some (Description (openDataMagic demo_ops)),
                  Autocomplete = Some (''workflow:'' @ ''data''),
                  Match = Some (Keyword (openDataMagic demo_ops) @ '' ''
                                @ Description (openDataMagic demo_ops))\<rparr>) = 1"
    using demo_registry_data by blast
  then have c6: "count_list (trace ?r)
        (NewItem \<lparr>Title = ''data'', Subtitle = Some ''Open workflow's data directory'',
                  Valid = Some False, ItemIcon = Some IconInfo,
                  UID = Some ''Open workflow's data directory'',
                  Autocomplete = Some ''workflow:data'',
                  Match = Some ''data Open workflow's data directory''\<rparr>) = 1"
    by (simp add: kd dd)
  from T have "Autocomplete (listItem ''workflow:'' ''data'' (openDataMagic demo_ops))
       = Some (''workflow:'' @ Keyword (openDataMagic demo_ops))"
    using inv demo_registry_data by blast
  then have c7: "Autocomplete (listItem ''workflow:'' ''data'' (openDataMagic demo_ops))
       = Some ''workflow:data''"
    by (simp add: kd)
  have flt: "demo_filter ''xyz''
      (Items \<lparr>Items = [], Sent = []\<rparr>
       @ map (\<lambda>kw. listItem ''workflow:'' kw (the (demo_registry kw))) [''log'', ''data'']) = []"
    by (simp add: demo_filter_def listItem_def demo_registry_log demo_registry_data
        openLogMagic_def openDataMagic_def)
  from T have "Sent (feedback_run demo_filter \<lparr>Items = [], Sent = []\<rparr> (trace ?r)) =
        Sent \<lparr>Items = [], Sent = []\<rparr> @
        [if demo_filter ''xyz'' (Items \<lparr>Items = [], Sent = []\<rparr>
              @ map (\<lambda>kw. listItem ''workflow:'' kw (the (demo_registry kw))) [''log'', ''data''])
            = []
         then [warnItem ''No matching action'' ''Try another query?'']
         else demo_filter ''xyz'' (Items \<lparr>Items = [], Sent = []\<rparr>
              @ map (\<lambda>kw. listItem ''workflow:'' kw (the (demo_registry kw))) [''log'', ''data''])]"
    by blast
  then have c8: "Sent (feedback_run demo_filter \<lparr>Items = [], Sent = []\<rparr> (trace ?r))
      = [[warnItem ''No matching action'' ''Try another query?'']]"
    unfolding flt by simp
  have args: "[''foo''] @ ''workflow:xyz'' # [] = [''foo'', ''workflow:xyz'']"
    by simp
  show ?thesis
    using h1' h2 h3 demo_order demo_registry_data inv c1 c3 c4 c6 c7 c8
    unfolding args by blast
qed

theorem Args_unregistered_not_first_counterexample:
  "''workflow:xyz'' \<in> set [''workflow:log'', ''workflow:xyz'']
   \<and> TrimSpace ''workflow:xyz'' = ''workflow:'' @ ''xyz''
   \<and> demo_registry ''xyz'' = None
   \<and> run_calls (trace (Args demo_registry [''log'', ''data'']
        [''workflow:log'', ''workflow:xyz''] ''workflow:'' [])) = [openLogMagic demo_ops]
   \<and> fallback_calls (trace (Args demo_registry [''log'', ''data'']
        [''workflow:log'', ''workflow:xyz''] ''workflow:'' [])) = []
   \<and> world (Args demo_registry [''log'', ''data'']
        [''workflow:log'', ''workflow:xyz''] ''workflow:'' []) = [''OpenLog'']"
proof -
  let ?r = "Args demo_registry [''log'', ''data''] [''workflow:log'', ''workflow:xyz''] ''workflow:'' []"
  have h: "TrimSpace ''workflow:log'' = ''workflow:'' @ ''log''"
    by (simp add: trim_log)
  have run: "Run (openLogMagic demo_ops) [] = (None, [''OpenLog''])"
    by (simp add: openLogMagic_def demo_ops_def)
  have "Args_loop demo_registry [''log'', ''data''] ''workflow:''
          [''workflow:log'', ''workflow:xyz''] []
        = Some \<lparr>outcome = Exit 0,
                trace = [LogPrintf (RunText (openLogMagic demo_ops)) [],
                         NewItem (runItem (openLogMagic demo_ops)), SendFeedback,
                         RunCall (openLogMagic demo_ops)]
                        @ (case None of
                             Some e \<Rightarrow> [LogPrintf ''Error running magic arg `%s`: %s''
                                          [Description (openLogMagic demo_ops), e],
                                        FinishLog True]
                           | None \<Rightarrow> [])
                        @ [FinishLog False],
                world = [''OpenLog'']\<rparr>"
    using h demo_registry_log run by (rule Args_loop_run)
  then have r: "?r = \<lparr>outcome = Exit 0,
                trace = [LogPrintf (RunText (openLogMagic demo_ops)) [],
                         NewItem (runItem (openLogMagic demo_ops)), SendFeedback,
                         RunCall (openLogMagic demo_ops), FinishLog False],
                world = [''OpenLog'']\<rparr>"
    by (simp add: Args_def)
  have c1: "run_calls (trace ?r) = [openLogMagic demo_ops]"
    and c2: "fallback_calls (trace ?r) = []"
    and c3: "world ?r = [''OpenLog'']"
    unfolding r by simp_all
  have m: "''workflow:xyz'' \<in> set [''workflow:log'', ''workflow:xyz'']"
    by simp
  have t: "TrimSpace ''workflow:xyz'' = ''workflow:'' @ ''xyz''"
    by (simp add: trim_xyz)
  have n: "demo_registry ''xyz'' = None"
    by (simp add: demo_registry_other)
  show ?thesis
    using m t n c1 c2 c3 by blast
qed

subsection \<open>What trimming removes\<close>

lemma space_runes_nonempty: "w \<in> set space_runes \<Longrightarrow> w \<noteq> []"
  by (auto simp: space_runes_def)

lemma leading_space_zero:
  "leading_space s = 0 \<longleftrightarrow> \<not> (\<exists>w\<in>set space_runes. HasPrefix s w)"
proof
  assume z: "leading_space s = 0"
  have "List.find (HasPrefix s) space_runes = None"
  proof (cases "List.find (HasPrefix s) space_runes")
    case None
    then show ?thesis .
  next
    case (Some w)
    then have "w \<in> set space_runes"
      by (auto simp: find_Some_iff)
    then have "w \<noteq> []"
      by (rule space_runes_nonempty)
    then show ?thesis
      using z Some by (simp add: leading_space_def)
  qed
  then show "\<not> (\<exists>w\<in>set space_runes. HasPrefix s w)"
    by (simp add: find_None_iff)
next
  assume "\<not> (\<exists>w\<in>set space_runes. HasPrefix s w)"
  then have "List.find (HasPrefix s) space_runes = None"
    by (simp add: find_None_iff)
  then show "leading_space s = 0"
    by (simp add: leading_space_def)
qed

lemma trailing_space_zero:
  "trailing_space s = 0 \<longleftrightarrow> \<not> (\<exists>w\<in>set space_runes. HasSuffix s w)"
proof
  assume z: "trailing_space s = 0"
  have "List.find (HasSuffix s) space_runes = None"
  proof (cases "List.find (HasSuffix s) space_runes")
    case None
    then show ?thesis .
  next
    case (Some w)
    then have "w \<in> set space_runes"
      by (auto simp: find_Some_iff)
    then have "w \<noteq> []"
      by (rule space_runes_nonempty)
    then show ?thesis
      using z Some by (simp add: trailing_space_def)
  qed
  then show "\<not> (\<exists>w\<in>set space_runes. HasSuffix s w)"
    by (simp add: find_None_iff)
next
  assume "\<not> (\<exists>w\<in>set space_runes. HasSuffix s w)"
  then have "List.find (HasSuffix s) space_runes = None"
    by (simp add: find_None_iff)
  then show "trailing_space s = 0"
    by (simp add: trailing_space_def)
qed

lemma leading_space_rune:
  assumes "leading_space s \<noteq> 0"
  shows "\<exists>w\<in>set space_runes. s = w @ drop (leading_space s) s"
proof -
  obtain w where f: "List.find (HasPrefix s) space_runes = Some w"
    using assms by (auto simp: leading_space_def split: option.splits)
  then have w: "w \<in> set space_runes" and p: "HasPrefix s w"
    by (auto simp: find_Some_iff)
  have "leading_space s = length w"
    using f by (simp add: leading_space_def)
  moreover have "s = w @ drop (length w) s"
    using p unfolding HasPrefix_def by (metis append_take_drop_id)
  ultimately show ?thesis
    using w by auto
qed

lemma trailing_space_rune:
  assumes "trailing_space s \<noteq> 0"
  shows "\<exists>w\<in>set space_runes. s = take (length s - trailing_space s) s @ w"
proof -
  obtain w where f: "List.find (HasSuffix s) space_runes = Some w"
    using assms by (auto simp: trailing_space_def split: option.splits)
  then have w: "w \<in> set space_runes" and p: "HasSuffix s w"
    by (auto simp: find_Some_iff)
  have "trailing_space s = length w"
    using f by (simp add: trailing_space_def)
  moreover have "s = take (length s - length w) s @ w"
    using p unfolding HasSuffix_def by (metis append_take_drop_id)
  ultimately show ?thesis
    using w by auto
qed

lemma TrimLeft_removes_spaces:
  "\<exists>ls. set ls \<subseteq> set space_runes \<and> s = concat ls @ TrimLeft s"
proof (induction s rule: TrimLeft.induct)
  case (1 s)
  show ?case
  proof (cases "leading_space s = 0")
    case True
    then have "s = concat [] @ TrimLeft s"
      by (simp add: TrimLeft.simps)
    then show ?thesis
      by (metis empty_set empty_subsetI)
  next
    case False
    then obtain w where w: "w \<in> set space_runes" and s: "s = w @ drop (leading_space s) s"
      using leading_space_rune by blast
    obtain ls where ls: "set ls \<subseteq> set space_runes"
      and d: "drop (leading_space s) s = concat ls @ TrimLeft (drop (leading_space s) s)"
      using "1.IH" [OF False] by blast
    have t: "TrimLeft s = TrimLeft (drop (leading_space s) s)"
      using False by (subst TrimLeft.simps) simp
    have "s = concat (w # ls) @ TrimLeft s"
      using s d t by (metis append.assoc concat.simps(2))
    moreover have "set (w # ls) \<subseteq> set space_runes"
      using w ls by simp
    ultimately show ?thesis
      by blast
  qed
qed

lemma TrimLeft_no_leading_space: "leading_space (TrimLeft s) = 0"
proof (induction s rule: TrimLeft.induct)
  case (1 s)
  show ?case
  proof (cases "leading_space s = 0")
    case True
    then show ?thesis by (simp add: TrimLeft.simps)
  next
    case False
    have "TrimLeft s = TrimLeft (drop (leading_space s) s)"
      using False by (subst TrimLeft.simps) simp
    then show ?thesis
      using "1.IH" [OF False] by simp
  qed
qed

lemma TrimRight_removes_spaces:
  "\<exists>rs. set rs \<subseteq> set space_runes \<and> s = TrimRight s @ concat rs"
proof (induction s rule: TrimRight.induct)
  case (1 s)
  show ?case
  proof (cases "trailing_space s = 0")
    case True
    then have "s = TrimRight s @ concat []"
      by (simp add: TrimRight.simps)
    then show ?thesis
      by (metis empty_set empty_subsetI)
  next
    case False
    let ?t = "take (length s - trailing_space s) s"
    obtain w where w: "w \<in> set space_runes" and s: "s = ?t @ w"
      using False trailing_space_rune by blast
    obtain rs where rs: "set rs \<subseteq> set space_runes" and d: "?t = TrimRight ?t @ concat rs"
      using "1.IH" [OF False] by blast
    have t: "TrimRight s = TrimRight ?t"
      using False by (subst TrimRight.simps) simp
    have "concat (rs @ [w]) = concat rs @ w"
      by simp
    then have "s = TrimRight s @ concat (rs @ [w])"
      using s d t by (metis append.assoc)
    moreover have "set (rs @ [w]) \<subseteq> set space_runes"
      using w rs by simp
    ultimately show ?thesis
      by blast
  qed
qed

lemma TrimRight_no_trailing_space: "trailing_space (TrimRight s) = 0"
proof (induction s rule: TrimRight.induct)
  case (1 s)
  show ?case
  proof (cases "trailing_space s = 0")
    case True
    then show ?thesis by (simp add: TrimRight.simps)
  next
    case False
    have "TrimRight s = TrimRight (take (length s - trailing_space s) s)"
      using False by (subst TrimRight.simps) simp
    then show ?thesis
      using "1.IH" [OF False] by simp
  qed
qed

lemma HasPrefix_extend: "HasPrefix s w \<Longrightarrow> HasPrefix (s @ t) w"
  by (auto simp: HasPrefix_def)

lemma TrimSpace_removes_spaces:
  "\<exists>ls rs. set ls \<subseteq> set space_runes \<and> set rs \<subseteq> set space_runes
     \<and> s = concat ls @ TrimSpace s @ concat rs"
proof -
  obtain ls where ls: "set ls \<subseteq> set space_runes" and l: "s = concat ls @ TrimLeft s"
    using TrimLeft_removes_spaces by blast
  obtain rs where rs: "set rs \<subseteq> set space_runes"
    and r: "TrimLeft s = TrimRight (TrimLeft s) @ concat rs"
    using TrimRight_removes_spaces by blast
  have "s = concat ls @ TrimSpace s @ concat rs"
    unfolding TrimSpace_def using l r by simp
  then show ?thesis
    using ls rs by blast
qed

lemma TrimSpace_no_space:
  "\<not> (\<exists>w\<in>set space_runes. HasPrefix (TrimSpace s) w \<or> HasSuffix (TrimSpace s) w)"
proof -
  obtain rs where r: "TrimLeft s = TrimSpace s @ concat rs"
    unfolding TrimSpace_def using TrimRight_removes_spaces by blast
  have "\<not> (\<exists>w\<in>set space_runes. HasPrefix (TrimLeft s) w)"
    using TrimLeft_no_leading_space by (simp add: leading_space_zero)
  then have p: "\<not> (\<exists>w\<in>set space_runes. HasPrefix (TrimSpace s) w)"
    using r HasPrefix_extend by metis
  have q: "\<not> (\<exists>w\<in>set space_runes. HasSuffix (TrimSpace s) w)"
    unfolding TrimSpace_def using TrimRight_no_trailing_space by (simp add: trailing_space_zero)
  show ?thesis
    using p q by blast
qed

lemma trim_padded: "TrimSpace padded_arg = ''workflow:data''"
  by code_simp

text \<open>Claim C4. \<^verbatim>\<open>Args\<close> goes through the arguments in order and trims each. What
  trimming removes from a string \<open>s\<close> is a run of white-space runes at its start and
  one at its end, and nothing else; what is left neither starts nor ends with a
  white-space rune. The first argument whose trimmed form starts with the prefix
  decides everything: the result is the same whatever follows it (and the same as for
  that argument alone), the process exits with status 0, and the key looked up is the
  trimmed argument without its first \<open>length prefix\<close> bytes. The lookup is the map's
  own: the action stored under exactly that byte string is run, and with no such entry
  no action is run and the listing is filtered by that string.\<close>

theorem Args_first_prefixed_only:
  assumes "\<forall>a\<in>set pre. \<not> HasPrefix (TrimSpace a) prefix"
    and "HasPrefix (TrimSpace arg) prefix"
  shows "(\<exists>ls rs. set ls \<subseteq> set space_runes \<and> set rs \<subseteq> set space_runes
            \<and> s = concat ls @ TrimSpace s @ concat rs)
    \<and> \<not> (\<exists>w\<in>set space_runes. HasPrefix (TrimSpace s) w \<or> HasSuffix (TrimSpace s) w)
    \<and> Args ma keys (pre @ arg # post) prefix x = Args ma keys [arg] prefix x
    \<and> outcome (Args ma keys (pre @ arg # post) prefix x) = Exit 0
    \<and> run_calls (trace (Args ma keys (pre @ arg # post) prefix x)) =
        (case ma (drop (length prefix) (TrimSpace arg)) of
           Some action \<Rightarrow> [action]
         | None \<Rightarrow> [])
    \<and> fallback_calls (trace (Args ma keys (pre @ arg # post) prefix x)) =
        (case ma (drop (length prefix) (TrimSpace arg)) of
           Some action \<Rightarrow> []
         | None \<Rightarrow> [Filter (drop (length prefix) (TrimSpace arg)),
                    WarnEmpty ''No matching action'' ''Try another query?''])"
proof -
  let ?q = "drop (length prefix) (TrimSpace arg)"
  have split: "TrimSpace arg = prefix @ ?q"
    using assms(2) by (rule HasPrefix_split)
  have skip: "Args_loop ma keys prefix (pre @ arg # post) x
                = Args_loop ma keys prefix (arg # post) x"
    using assms(1) by (rule Args_loop_skip)
  have dispatch: "Args ma keys (pre @ arg # post) prefix x = Args ma keys [arg] prefix x
    \<and> outcome (Args ma keys (pre @ arg # post) prefix x) = Exit 0
    \<and> run_calls (trace (Args ma keys (pre @ arg # post) prefix x)) =
        (case ma ?q of Some action \<Rightarrow> [action] | None \<Rightarrow> [])
    \<and> fallback_calls (trace (Args ma keys (pre @ arg # post) prefix x)) =
        (case ma ?q of
           Some action \<Rightarrow> []
         | None \<Rightarrow> [Filter ?q, WarnEmpty ''No matching action'' ''Try another query?''])"
  proof (cases "ma ?q")
    case None
    have a: "Args_loop ma keys prefix (arg # post) x =
        Some \<lparr>outcome = Exit 0,
              trace = listing ma prefix keys
                @ [Filter ?q, WarnEmpty ''No matching action'' ''Try another query?'',
                   SendFeedback],
              world = x\<rparr>" for post
      using split None by (rule Args_loop_list)
    show ?thesis
      using None skip a [of post] a [of "[]"]
      by (simp add: Args_def run_calls_append run_calls_listing
          fallback_calls_append fallback_calls_listing del: Args_loop.simps)
  next
    case (Some action)
    obtain err x' where run: "Run action x = (err, x')"
      by (cases "Run action x")
    have a: "Args_loop ma keys prefix (arg # post) x =
        Some \<lparr>outcome = Exit 0,
              trace = [LogPrintf (RunText action) [], NewItem (runItem action), SendFeedback,
                       RunCall action]
                @ (case err of
                     Some e \<Rightarrow> [LogPrintf ''Error running magic arg `%s`: %s''
                                  [Description action, e],
                                FinishLog True]
                   | None \<Rightarrow> [])
                @ [FinishLog False],
              world = x'\<rparr>" for post
      using split Some run by (rule Args_loop_run)
    show ?thesis
      using Some skip a [of post] a [of "[]"]
      by (cases err) (simp_all add: Args_def del: Args_loop.simps)
  qed
  have removed: "\<exists>ls rs. set ls \<subseteq> set space_runes \<and> set rs \<subseteq> set space_runes
            \<and> s = concat ls @ TrimSpace s @ concat rs"
    by (rule TrimSpace_removes_spaces)
  have clean: "\<not> (\<exists>w\<in>set space_runes. HasPrefix (TrimSpace s) w \<or> HasSuffix (TrimSpace s) w)"
    by (rule TrimSpace_no_space)
  show ?thesis
    using removed clean dispatch by (intro conjI) blast+
qed

theorem Args_first_prefixed_only_witness:
  "\<not> HasPrefix (TrimSpace ''foo'') ''workflow:''
   \<and> HasPrefix (TrimSpace padded_arg) ''workflow:''
   \<and> padded_arg = [CHR 0x09, CHR 0x20] @ ''workflow:data'' @ [CHR 0xC2, CHR 0xA0, CHR 0x0A, CHR 0x20]
   \<and> TrimSpace padded_arg = ''workflow:data''
   \<and> (\<exists>ls rs. set ls \<subseteq> set space_runes \<and> set rs \<subseteq> set space_runes
          \<and> padded_arg = concat ls @ ''workflow:data'' @ concat rs)
   \<and> \<not> (\<exists>w\<in>set space_runes. HasPrefix ''workflow:data'' w \<or> HasSuffix ''workflow:data'' w)
   \<and> Args demo_registry [''log'', ''data''] [''foo'', padded_arg, ''workflow:log'']
        ''workflow:'' []
       = Args demo_registry [''log'', ''data''] [padded_arg] ''workflow:'' []
   \<and> run_calls (trace (Args demo_registry [''log'', ''data'']
        [''foo'', padded_arg, ''workflow:log''] ''workflow:'' []))
       = [openDataMagic demo_ops]
   \<and> world (Args demo_registry [''log'', ''data'']
        [''foo'', padded_arg, ''workflow:log''] ''workflow:'' []) = [''OpenData'']
   \<and> HasPrefix (TrimSpace ''workflow:LOG'') ''workflow:''
   \<and> run_calls (trace (Args demo_registry [''log'', ''data''] [''workflow:LOG''] ''workflow:'' []))
       = []
   \<and> fallback_calls (trace (Args demo_registry [''log'', ''data''] [''workflow:LOG'']
        ''workflow:'' []))
       = [Filter ''LOG'', WarnEmpty ''No matching action'' ''Try another query?'']"
proof -
  have h1: "\<forall>a\<in>set [''foo'']. \<not> HasPrefix (TrimSpace a) ''workflow:''"
    by (simp add: trim_foo HasPrefix_def)
  have h1': "\<not> HasPrefix (TrimSpace ''foo'') ''workflow:''"
    using h1 by simp
  have h2: "HasPrefix (TrimSpace padded_arg) ''workflow:''"
    by (simp add: trim_padded HasPrefix_def)
  have q2: "drop (length ''workflow:'') (TrimSpace padded_arg) = ''data''"
    by (simp add: trim_padded)
  have h0: "\<forall>a\<in>set []. \<not> HasPrefix (TrimSpace a) ''workflow:''"
    by simp
  have h3: "HasPrefix (TrimSpace ''workflow:LOG'') ''workflow:''"
    by (simp add: trim_LOG HasPrefix_def)
  have q3: "drop (length ''workflow:'') (TrimSpace ''workflow:LOG'') = ''LOG''"
    by (simp add: trim_LOG)
  have n3: "demo_registry ''LOG'' = None"
    by (simp add: demo_registry_other)
  note T1 = Args_first_prefixed_only [where ma = demo_registry and keys = "[''log'', ''data'']"
      and post = "[''workflow:log'']" and x = "[]" and s = padded_arg, OF h1 h2]
  note T2 = Args_first_prefixed_only [where ma = demo_registry and keys = "[''log'', ''data'']"
      and post = "[]" and x = "[]" and s = padded_arg, OF h0 h3]
  have p0: "padded_arg
      = [CHR 0x09, CHR 0x20] @ ''workflow:data'' @ [CHR 0xC2, CHR 0xA0, CHR 0x0A, CHR 0x20]"
    by (simp add: padded_arg_def)
  from T1 have "\<exists>ls rs. set ls \<subseteq> set space_runes \<and> set rs \<subseteq> set space_runes
          \<and> padded_arg = concat ls @ TrimSpace padded_arg @ concat rs"
    by blast
  then have p1: "\<exists>ls rs. set ls \<subseteq> set space_runes \<and> set rs \<subseteq> set space_runes
          \<and> padded_arg = concat ls @ ''workflow:data'' @ concat rs"
    unfolding trim_padded .
  from T1 have "\<not> (\<exists>w\<in>set space_runes.
      HasPrefix (TrimSpace padded_arg) w \<or> HasSuffix (TrimSpace padded_arg) w)"
    by blast
  then have p2: "\<not> (\<exists>w\<in>set space_runes.
      HasPrefix ''workflow:data'' w \<or> HasSuffix ''workflow:data'' w)"
    unfolding trim_padded .
  from T1 have e1: "Args demo_registry [''log'', ''data'']
        ([''foo''] @ padded_arg # [''workflow:log'']) ''workflow:'' []
       = Args demo_registry [''log'', ''data''] [padded_arg] ''workflow:'' []"
    by blast
  then have c1: "Args demo_registry [''log'', ''data''] [''foo'', padded_arg, ''workflow:log'']
        ''workflow:'' []
       = Args demo_registry [''log'', ''data''] [padded_arg] ''workflow:'' []"
    by simp
  from T1 have "run_calls (trace (Args demo_registry [''log'', ''data'']
        ([''foo''] @ padded_arg # [''workflow:log'']) ''workflow:'' []))
       = (case demo_registry (drop (length ''workflow:'') (TrimSpace padded_arg)) of
            Some action \<Rightarrow> [action] | None \<Rightarrow> [])"
    by blast
  then have c2: "run_calls (trace (Args demo_registry [''log'', ''data'']
        [''foo'', padded_arg, ''workflow:log''] ''workflow:'' []))
       = [openDataMagic demo_ops]"
    unfolding q2 by (simp add: demo_registry_data)
  have run: "Run (openDataMagic demo_ops) [] = (None, [''OpenData''])"
    by (simp add: openDataMagic_def demo_ops_def)
  have "Args_loop demo_registry [''log'', ''data''] ''workflow:'' [padded_arg] []
      = Some \<lparr>outcome = Exit 0,
              trace = [LogPrintf (RunText (openDataMagic demo_ops)) [],
                       NewItem (runItem (openDataMagic demo_ops)), SendFeedback,
                       RunCall (openDataMagic demo_ops)]
                @ (case None of
                     Some e \<Rightarrow> [LogPrintf ''Error running magic arg `%s`: %s''
                                  [Description (openDataMagic demo_ops), e],
                                FinishLog True]
                   | None \<Rightarrow> [])
                @ [FinishLog False],
              world = [''OpenData'']\<rparr>"
    using _ demo_registry_data run
  proof (rule Args_loop_run)
    show "TrimSpace padded_arg = ''workflow:'' @ ''data''"
      by (simp add: trim_padded)
  qed
  then have "world (Args demo_registry [''log'', ''data''] [padded_arg] ''workflow:'' [])
      = [''OpenData'']"
    by (simp add: Args_def)
  with c1 have c2w: "world (Args demo_registry [''log'', ''data'']
        [''foo'', padded_arg, ''workflow:log''] ''workflow:'' []) = [''OpenData'']"
    by simp
  from T2 have "run_calls (trace (Args demo_registry [''log'', ''data'']
        ([] @ ''workflow:LOG'' # []) ''workflow:'' []))
       = (case demo_registry (drop (length ''workflow:'') (TrimSpace ''workflow:LOG'')) of
            Some action \<Rightarrow> [action] | None \<Rightarrow> [])"
    by blast
  then have c3: "run_calls (trace (Args demo_registry [''log'', ''data''] [''workflow:LOG'']
        ''workflow:'' [])) = []"
    unfolding q3 by (simp add: n3)
  from T2 have "fallback_calls (trace (Args demo_registry [''log'', ''data'']
        ([] @ ''workflow:LOG'' # []) ''workflow:'' []))
       = (case demo_registry (drop (length ''workflow:'') (TrimSpace ''workflow:LOG'')) of
            Some action \<Rightarrow> []
          | None \<Rightarrow> [Filter (drop (length ''workflow:'') (TrimSpace ''workflow:LOG'')),
                     WarnEmpty ''No matching action'' ''Try another query?''])"
    by blast
  then have c4: "fallback_calls (trace (Args demo_registry [''log'', ''data''] [''workflow:LOG'']
        ''workflow:'' []))
       = [Filter ''LOG'', WarnEmpty ''No matching action'' ''Try another query?'']"
    unfolding q3 by (simp add: n3)
  show ?thesis
    using h1' h2 h3 p0 trim_padded p1 p2 c1 c2 c2w c3 c4 by (intro conjI)
qed

end
